theory Spec2Isabelle
  imports Main "HOL-Library.Sublist"
begin

section \<open>The tag mapper of \<^verbatim>\<open>scripts/utils.py\<close>\<close>

subsection \<open>Python string and list primitives used by the mapper\<close>

datatype py_error = IndexError

text \<open>
  Tags are strings over the characters of \<^typ>\<open>char\<close>; every tag of the source is
  ASCII.

  \<^verbatim>\<open>tag.startswith((p1, p2, ...))\<close>: true when one of the given strings is a prefix
  of \<open>tag\<close>.
\<close>

definition startswith :: "string \<Rightarrow> string list \<Rightarrow> bool" where
  "startswith s ps = list_ex (\<lambda>p. prefix p s) ps"

text \<open>
  \<^verbatim>\<open>s.split(sep)\<close> for a one-character separator: the segments between the
  occurrences of \<open>sep\<close>, empty segments kept; the empty string gives one empty segment.
\<close>

fun py_split :: "char \<Rightarrow> string \<Rightarrow> string list" where
  "py_split sep [] = [[]]"
| "py_split sep (c # cs) =
     (if c = sep then [] # py_split sep cs
      else (case py_split sep cs of
              [] \<Rightarrow> [[c]]
            | w # ws \<Rightarrow> (c # w) # ws))"

text \<open>\<^verbatim>\<open>xs[-1]\<close>: the last element, IndexError on the empty list.\<close>

definition index_last :: "'a list \<Rightarrow> py_error + 'a" where
  "index_last xs = (case xs of [] \<Rightarrow> Inl IndexError | _ # _ \<Rightarrow> Inr (last xs))"

subsection \<open>The module-level tag names\<close>

text \<open>
  \<^verbatim>\<open>NOUN, VERB, ADJ, ADV, PRON, DET, PREP, ADP, NUM, CONJ, INTJ, PRT, PUNC, X, PROPN =
    "NOUN", "VERB", "ADJ", "ADV", "PRON", "DET", "PREP", "ADP", "NUM", "CONJ", "INTJ",
    "PART", "PUNCT", "X", "PROPN"\<close>
\<close>

definition NOUN :: string where "NOUN = ''NOUN''"
definition VERB :: string where "VERB = ''VERB''"
definition ADJ :: string where "ADJ = ''ADJ''"
definition ADV :: string where "ADV = ''ADV''"
definition PRON :: string where "PRON = ''PRON''"
definition DET :: string where "DET = ''DET''"
definition PREP :: string where "PREP = ''PREP''"
definition ADP :: string where "ADP = ''ADP''"
definition NUM :: string where "NUM = ''NUM''"
definition CONJ :: string where "CONJ = ''CONJ''"
definition INTJ :: string where "INTJ = ''INTJ''"
definition PRT :: string where "PRT = ''PART''"
definition PUNC :: string where "PUNC = ''PUNCT''"
definition X :: string where "X = ''X''"
definition PROPN :: string where "PROPN = ''PROPN''"

subsection \<open>\<^verbatim>\<open>penntreebank2universal\<close>\<close>

text \<open>
  The chain of \<^verbatim>\<open>if ...: return ...\<close> statements, in the order of the source. The only
  operation of the body that can raise is the index \<^verbatim>\<open>[-1]\<close> of the first branch, so
  the result is a sum with the error on the left.
\<close>

definition penntreebank2universal :: "string \<Rightarrow> py_error + string" where
  "penntreebank2universal tag =
     (if startswith tag [''NNP-'', ''NNPS-'']
      then (case index_last (py_split CHR ''-'' tag) of
              Inl e \<Rightarrow> Inl e
            | Inr seg \<Rightarrow> Inr (NOUN @ ''-'' @ seg))
      else if tag \<in> set [''NN'', ''NNS'', ''NP''] then Inr NOUN
      else if tag \<in> set [''NNP'', ''NNPS''] then Inr PROPN
      else if tag \<in> set [''MD'', ''VB'', ''VBD'', ''VBG'', ''VBN'', ''VBP'', ''VBZ''] then Inr VERB
      else if tag \<in> set [''JJ'', ''JJR'', ''JJS''] then Inr ADJ
      else if tag \<in> set [''RB'', ''RBR'', ''RBS'', ''WRB''] then Inr ADV
      else if tag \<in> set [''PRP'', ''PRP$'', ''WP'', ''WP$''] then Inr PRON
      else if tag \<in> set [''DT'', ''PDT'', ''WDT'', ''EX''] then Inr DET
      else if tag \<in> set [''IN''] then Inr PREP
      else if tag \<in> set [''CD''] then Inr NUM
      else if tag \<in> set [''CC''] then Inr CONJ
      else if tag \<in> set [''UH''] then Inr INTJ
      else if tag \<in> set [''POS'', ''RP'', ''TO''] then Inr PRT
      else if tag \<in> set [''SYM'', ''LS'', ''.'', ''!'', ''?'', '','', '':'', ''('', '')'',
                           [CHR 0x22], ''#'', ''$''] then Inr PUNC
      else Inr X)"

text \<open>All the tags of the exact-set tuples of the source, in the order of the source.\<close>

definition table_tags :: "string list" where
  "table_tags =
     [''NN'', ''NNS'', ''NP'', ''NNP'', ''NNPS'',
      ''MD'', ''VB'', ''VBD'', ''VBG'', ''VBN'', ''VBP'', ''VBZ'',
      ''JJ'', ''JJR'', ''JJS'', ''RB'', ''RBR'', ''RBS'', ''WRB'',
      ''PRP'', ''PRP$'', ''WP'', ''WP$'', ''DT'', ''PDT'', ''WDT'', ''EX'',
      ''IN'', ''CD'', ''CC'', ''UH'', ''POS'', ''RP'', ''TO'',
      ''SYM'', ''LS'', ''.'', ''!'', ''?'', '','', '':'', ''('', '')'', [CHR 0x22], ''#'', ''$'']"

section \<open>The corpus loader\<close>

subsection \<open>Documents, tokens and spans\<close>

text \<open>
  A token carries its index in the document (\<^verbatim>\<open>tok.i\<close>) and its tag (\<^verbatim>\<open>tok.pos_\<close>).
  A span is built by \<^verbatim>\<open>Span(doc, start, end, label)\<close>; the document it points into is
  the one that holds it. A document has its tokens and its annotation set
  (\<^verbatim>\<open>doc.ents\<close>). A corpus record (\<^verbatim>\<open>Example\<close>) holds a predicted and a reference
  document.
\<close>

record token =
  token_i :: nat
  token_pos :: string

datatype span = Span (span_start: nat) (span_end: nat) (span_label: string)

record doc =
  tokens :: "token list"
  ents :: "span list"

record example =
  predicted :: doc
  reference :: doc

text \<open>
  The library keeps \<^verbatim>\<open>tok.i\<close> equal to the position of the token in its document.
\<close>

definition wf_doc :: "doc \<Rightarrow> bool" where
  "wf_doc d = (map token_i (tokens d) = [0..<length (tokens d)])"

text \<open>
  \<^verbatim>\<open>doc.copy()\<close> gives a new document with the same contents; the copies are the
  only references to them, so they are values here.
\<close>

definition doc_copy :: "doc \<Rightarrow> doc" where
  "doc_copy d = d"

text \<open>
  Modelled from the spec: \<^verbatim>\<open>Doc.set_ents\<close> belongs to the external library; it
  "replaces the document's annotation set with exactly these newly constructed spans".
\<close>

definition set_ents :: "doc \<Rightarrow> span list \<Rightarrow> doc" where
  "set_ents d es = d\<lparr>ents := es\<rparr>"

text \<open>
  \<^verbatim>\<open>data[:subset]\<close> for an integer bound: a negative bound counts from the end of the
  list.
\<close>

definition slice_to :: "'a list \<Rightarrow> int \<Rightarrow> 'a list" where
  "slice_to xs n =
     (if 0 \<le> n then take (nat n) xs else take (nat (int (length xs) + n)) xs)"

subsection \<open>\<^verbatim>\<open>load_data_split\<close>\<close>

text \<open>
  The loop \<^verbatim>\<open>for tok in doc\<close>, with its two accumulators \<^verbatim>\<open>ents\<close> and \<^verbatim>\<open>tok_pos\<close>.
\<close>

fun label_tokens ::
  "string list \<Rightarrow> token list \<Rightarrow> span list \<Rightarrow> string list \<Rightarrow> span list \<times> string list" where
  "label_tokens all_labels [] ents_acc tok_pos = (ents_acc, tok_pos)"
| "label_tokens all_labels (tok # toks) ents_acc tok_pos =
     (if token_pos tok \<in> set all_labels
      then label_tokens all_labels toks
             (ents_acc @ [Span (token_i tok) (token_i tok + 1) (token_pos tok)])
             (tok_pos @ [token_pos tok])
      else label_tokens all_labels toks ents_acc (tok_pos @ [''X'']))"

text \<open>
  The body of \<^verbatim>\<open>for doc in docs\<close>: both accumulators start empty, the tokens are
  labeled, and the spans are set on the document. The local list \<^verbatim>\<open>tok_pos\<close> is
  returned beside the document so that it can be observed.
\<close>

definition set_gold_labels :: "string list \<Rightarrow> doc \<Rightarrow> doc \<times> string list" where
  "set_gold_labels all_labels d =
     (case label_tokens all_labels (tokens d) [] [] of
        (es, tok_pos) \<Rightarrow> (set_ents d es, tok_pos))"

text \<open>
  \<^verbatim>\<open>load_data_split(split, all_labels, subset)\<close>. The records that the library's
  reader gives for the split, \<^verbatim>\<open>list(reader(nlp))\<close>, are the parameter \<open>data\<close>.
  \<open>subset_arg\<close> (the parameter \<^verbatim>\<open>subset\<close>) is \<open>Some n\<close> when the argument is an
  integer \<open>n\<close> and \<open>None\<close> when \<^verbatim>\<open>isinstance(subset, int)\<close> is false;
  \<open>records_used\<close> is \<^verbatim>\<open>if isinstance(subset, int): data = data[:subset]\<close>.
\<close>

definition records_used :: "example list \<Rightarrow> int option \<Rightarrow> example list" where
  "records_used data subset_arg =
     (case subset_arg of Some n \<Rightarrow> slice_to data n | None \<Rightarrow> data)"

definition load_data_split :: "example list \<Rightarrow> string list \<Rightarrow> int option \<Rightarrow> doc list" where
  "load_data_split data all_labels subset_arg =
     (let data' = records_used data subset_arg;
          docs = map (\<lambda>ex. doc_copy (reference ex)) data'
      in map (\<lambda>d. fst (set_gold_labels all_labels d)) docs)"

subsection \<open>A small corpus\<close>

text \<open>
  A document of three tokens tagged DET, NOUN, DET that already carries one annotation,
  and the corpus record that holds it.
\<close>

definition sample_doc :: doc where
  "sample_doc =
     \<lparr>tokens = [\<lparr>token_i = 0, token_pos = ''DET''\<rparr>,
                \<lparr>token_i = 1, token_pos = ''NOUN''\<rparr>,
                \<lparr>token_i = 2, token_pos = ''DET''\<rparr>],
      ents = [Span 0 3 ''OLD'']\<rparr>"

definition sample_record :: example where
  "sample_record = \<lparr>predicted = sample_doc, reference = sample_doc\<rparr>"

section \<open>The labeling pass\<close>

text \<open>
  Documents are objects: a labeling function may change the one it is given, or build
  another one and return that. The store is the list of all objects, an address is a
  position in it, and allocating appends. A labeling function takes the address of a
  document and the store; it returns an address and the new store, or it raises, which
  leaves an error and the store as it was at that moment.
\<close>

type_synonym addr = nat

type_synonym 'd heap = "'d list"

type_synonym ('d, 'e) lf = "addr \<Rightarrow> 'd heap \<Rightarrow> ('e \<times> 'd heap) + (addr \<times> 'd heap)"

text \<open>The inner loop \<^verbatim>\<open>for lf in lfs: doc = lf(doc)\<close>, on the local variable \<^verbatim>\<open>doc\<close>.\<close>

fun apply_lfs :: "('d, 'e) lf list \<Rightarrow> addr \<Rightarrow> 'd heap \<Rightarrow> ('e \<times> 'd heap) + (addr \<times> 'd heap)" where
  "apply_lfs [] d h = Inr (d, h)"
| "apply_lfs (lf # lfs) d h =
     (case lf d h of
        Inl err \<Rightarrow> Inl err
      | Inr (d', h') \<Rightarrow> apply_lfs lfs d' h')"

text \<open>
  The outer loop \<^verbatim>\<open>for doc in docs\<close>: the value left in \<^verbatim>\<open>doc\<close> by the inner loop is
  dropped when the next document is bound.
\<close>

fun tag_loop :: "addr list \<Rightarrow> ('d, 'e) lf list \<Rightarrow> 'd heap \<Rightarrow> ('e \<times> 'd heap) + 'd heap" where
  "tag_loop [] lfs h = Inr h"
| "tag_loop (d # ds) lfs h =
     (case apply_lfs lfs d h of
        Inl err \<Rightarrow> Inl err
      | Inr (d', h') \<Rightarrow> tag_loop ds lfs h')"

text \<open>\<^verbatim>\<open>tag_all(docs, lfs)\<close>: the loops, then \<^verbatim>\<open>return docs\<close>.\<close>

definition tag_all ::
  "addr list \<Rightarrow> ('d, 'e) lf list \<Rightarrow> 'd heap \<Rightarrow> ('e \<times> 'd heap) + (addr list \<times> 'd heap)" where
  "tag_all docs lfs h =
     (case tag_loop docs lfs h of
        Inl err \<Rightarrow> Inl err
      | Inr h' \<Rightarrow> Inr (docs, h'))"

text \<open>
  What the specification says of the pass with the functions \<open>[f, g]\<close>: the sequence
  obtained by mapping \<open>g\<close> after \<open>f\<close> over the documents, one document after the other.
\<close>

fun map_g_after_f ::
  "('d, 'e) lf \<Rightarrow> ('d, 'e) lf \<Rightarrow> addr list \<Rightarrow> 'd heap \<Rightarrow> ('e \<times> 'd heap) + (addr list \<times> 'd heap)" where
  "map_g_after_f f g [] h = Inr ([], h)"
| "map_g_after_f f g (d # ds) h =
     (case f d h of
        Inl err \<Rightarrow> Inl err
      | Inr (d1, h1) \<Rightarrow>
          (case g d1 h1 of
             Inl err \<Rightarrow> Inl err
           | Inr (d2, h2) \<Rightarrow>
               (case map_g_after_f f g ds h2 of
                  Inl err \<Rightarrow> Inl err
                | Inr (rs, h3) \<Rightarrow> Inr (d2 # rs, h3))))"

text \<open>
  The two kinds of labeling function the specification names, built from a function on
  document values: one that changes its argument in place and returns it, and one that
  leaves its argument alone and returns a new document. Both raise on an address that
  holds no object. A third one raises on one given document and returns every other
  document as it is.
\<close>

datatype lf_error = NoSuchObject addr | LabelingFailure string

definition lf_in_place :: "('d \<Rightarrow> 'd) \<Rightarrow> ('d, lf_error) lf" where
  "lf_in_place f d h =
     (if d < length h then Inr (d, h[d := f (h ! d)]) else Inl (NoSuchObject d, h))"

definition lf_fresh :: "('d \<Rightarrow> 'd) \<Rightarrow> ('d, lf_error) lf" where
  "lf_fresh f d h =
     (if d < length h then Inr (length h, h @ [f (h ! d)]) else Inl (NoSuchObject d, h))"

definition lf_raise_on :: "addr \<Rightarrow> string \<Rightarrow> ('d, lf_error) lf" where
  "lf_raise_on a msg d h = (if d = a then Inl (LabelingFailure msg, h) else Inr (d, h))"

definition add_one :: "int \<Rightarrow> int" where
  "add_one x = x + 1"

definition double :: "int \<Rightarrow> int" where
  "double x = 2 * x"

text \<open>The documents seen through a sequence of addresses.\<close>

definition deref :: "'d heap \<Rightarrow> addr list \<Rightarrow> 'd list" where
  "deref h ds = map (\<lambda>d. h ! d) ds"

text \<open>A labeling function that returns the object it was given, whenever it returns.\<close>

definition returns_argument :: "('d, 'e) lf \<Rightarrow> bool" where
  "returns_argument lf = (\<forall>d h d' h'. lf d h = Inr (d', h') \<longrightarrow> d' = d)"

text \<open>
  A labeling function that changes no object of the store it was given, whenever it
  returns: it may only allocate.
\<close>

definition leaves_objects :: "('d, 'e) lf \<Rightarrow> bool" where
  "leaves_objects lf = (\<forall>d h d' h'. lf d h = Inr (d', h') \<longrightarrow> take (length h) h' = h)"

section \<open>Properties of the string primitives\<close>

lemmas tag_names =
  NOUN_def VERB_def ADJ_def ADV_def PRON_def DET_def PREP_def ADP_def NUM_def CONJ_def
  INTJ_def PRT_def PUNC_def X_def PROPN_def

lemma py_split_not_Nil: "py_split sep s \<noteq> []"
  by (induction s) (auto split: list.splits)

lemma py_split_no_sep: "sep \<notin> set s \<Longrightarrow> py_split sep s = [s]"
  by (induction s) auto

lemma last_py_split_append:
  "last (py_split sep (pre @ sep # s)) = last (py_split sep s)"
proof (induction pre)
  case Nil
  show ?case by (simp add: py_split_not_Nil)
next
  case (Cons c pre)
  obtain w ws where ws: "py_split sep (pre @ sep # s) = w # ws"
    using py_split_not_Nil [of sep "pre @ sep # s"] by (cases "py_split sep (pre @ sep # s)") auto
  have two: "ws \<noteq> []"
    using ws by (induction pre arbitrary: w ws) (auto simp: py_split_not_Nil split: if_splits list.splits)
  show ?case using Cons ws two by (auto simp: py_split_not_Nil)
qed

lemma index_last_py_split:
  "index_last (py_split sep s) = Inr (last (py_split sep s))"
  using py_split_not_Nil [of sep s] by (cases "py_split sep s") (auto simp: index_last_def)

lemma compound_rule:
  "startswith tag [''NNP-'', ''NNPS-''] \<Longrightarrow>
   penntreebank2universal tag = Inr (''NOUN-'' @ last (py_split CHR ''-'' tag))"
  by (simp add: penntreebank2universal_def index_last_py_split NOUN_def)

section \<open>The compound rule on an empty suffix\<close>

text \<open>
  Claim C10. On the inputs \<^verbatim>\<open>"NNP-"\<close> and \<^verbatim>\<open>"NNPS-"\<close> the mapper returns \<^verbatim>\<open>"NOUN-"\<close>,
  neither \<^verbatim>\<open>"PROPN"\<close> nor \<^verbatim>\<open>"X"\<close>. The compound rule fires on every string that starts
  with \<^verbatim>\<open>"NNP-"\<close> or \<^verbatim>\<open>"NNPS-"\<close>, and what it keeps after \<^verbatim>\<open>"NOUN-"\<close> is the segment after
  the last hyphen of the input: for an input \<open>pre @ ''-'' @ seg\<close> with no hyphen in
  \<open>seg\<close>, the result is \<^verbatim>\<open>"NOUN-"\<close> followed by \<open>seg\<close>.
\<close>

theorem empty_suffix_gives_NOUN_hyphen:
  "penntreebank2universal ''NNP-'' = Inr ''NOUN-''
   \<and> penntreebank2universal ''NNPS-'' = Inr ''NOUN-''
   \<and> penntreebank2universal ''NNP-'' \<noteq> Inr PROPN
   \<and> penntreebank2universal ''NNP-'' \<noteq> Inr X
   \<and> (startswith (pre @ ''-'' @ seg) [''NNP-'', ''NNPS-''] \<and> CHR ''-'' \<notin> set seg
        \<longrightarrow> penntreebank2universal (pre @ ''-'' @ seg) = Inr (''NOUN-'' @ seg))"
proof -
  have a: "penntreebank2universal ''NNP-'' = Inr ''NOUN-''"
    by (simp add: compound_rule startswith_def)
  have b: "penntreebank2universal ''NNPS-'' = Inr ''NOUN-''"
    by (simp add: compound_rule startswith_def)
  have c: "penntreebank2universal (pre @ ''-'' @ seg) = Inr (''NOUN-'' @ seg)"
    if "startswith (pre @ ''-'' @ seg) [''NNP-'', ''NNPS-'']" "CHR ''-'' \<notin> set seg"
    using that last_py_split_append [of "CHR ''-''" pre seg]
    by (simp add: compound_rule py_split_no_sep)
  show ?thesis using a b c by (simp add: tag_names)
qed

theorem empty_suffix_gives_NOUN_hyphen_witness:
  "startswith (''NNPS-x-y'' @ ''-'' @ ''LOC'') [''NNP-'', ''NNPS-'']
   \<and> CHR ''-'' \<notin> set ''LOC''
   \<and> penntreebank2universal ''NNPS-x-y-LOC'' = Inr ''NOUN-LOC''"
  using empty_suffix_gives_NOUN_hyphen [of "''NNPS-x-y''" "''LOC''"]
  by (simp add: startswith_def)

section \<open>The category tables\<close>

text \<open>
  Claim C1, as the specification states it, fails on the particle and punctuation rows:
  the names \<^verbatim>\<open>PRT\<close> and \<^verbatim>\<open>PUNC\<close> are bound to the strings \<^verbatim>\<open>"PART"\<close> and \<^verbatim>\<open>"PUNCT"\<close>,
  so \<^verbatim>\<open>"POS"\<close> is not mapped to \<^verbatim>\<open>"PRT"\<close>.
\<close>

theorem particle_row_not_PRT:
  "penntreebank2universal ''POS'' \<noteq> Inr ''PRT''"
  by (simp add: penntreebank2universal_def startswith_def tag_names)

text \<open>
  Claim C1, amended. Every tag of the category tables is mapped to the string bound to its
  row's name: \<^verbatim>\<open>"NOUN"\<close>, \<^verbatim>\<open>"PROPN"\<close>, \<^verbatim>\<open>"VERB"\<close>, \<^verbatim>\<open>"ADJ"\<close>, \<^verbatim>\<open>"ADV"\<close>, \<^verbatim>\<open>"PRON"\<close>, \<^verbatim>\<open>"DET"\<close>,
  \<^verbatim>\<open>"PREP"\<close>, \<^verbatim>\<open>"NUM"\<close>, \<^verbatim>\<open>"CONJ"\<close>, \<^verbatim>\<open>"INTJ"\<close>, then \<^verbatim>\<open>"PART"\<close> for POS, RP and TO, and
  \<^verbatim>\<open>"PUNCT"\<close> for the symbol and punctuation tags.
\<close>

theorem category_tables:
  "map penntreebank2universal [''NN'', ''NNS'', ''NP'']
     = [Inr ''NOUN'', Inr ''NOUN'', Inr ''NOUN'']
   \<and> map penntreebank2universal [''NNP'', ''NNPS'']
     = [Inr ''PROPN'', Inr ''PROPN'']
   \<and> map penntreebank2universal [''MD'', ''VB'', ''VBD'', ''VBG'', ''VBN'', ''VBP'', ''VBZ'']
     = [Inr ''VERB'', Inr ''VERB'', Inr ''VERB'', Inr ''VERB'', Inr ''VERB'', Inr ''VERB'',
        Inr ''VERB'']
   \<and> map penntreebank2universal [''JJ'', ''JJR'', ''JJS'']
     = [Inr ''ADJ'', Inr ''ADJ'', Inr ''ADJ'']
   \<and> map penntreebank2universal [''RB'', ''RBR'', ''RBS'', ''WRB'']
     = [Inr ''ADV'', Inr ''ADV'', Inr ''ADV'', Inr ''ADV'']
   \<and> map penntreebank2universal [''PRP'', ''PRP$'', ''WP'', ''WP$'']
     = [Inr ''PRON'', Inr ''PRON'', Inr ''PRON'', Inr ''PRON'']
   \<and> map penntreebank2universal [''DT'', ''PDT'', ''WDT'', ''EX'']
     = [Inr ''DET'', Inr ''DET'', Inr ''DET'', Inr ''DET'']
   \<and> map penntreebank2universal [''IN''] = [Inr ''PREP'']
   \<and> map penntreebank2universal [''CD''] = [Inr ''NUM'']
   \<and> map penntreebank2universal [''CC''] = [Inr ''CONJ'']
   \<and> map penntreebank2universal [''UH''] = [Inr ''INTJ'']
   \<and> map penntreebank2universal [''POS'', ''RP'', ''TO'']
     = [Inr ''PART'', Inr ''PART'', Inr ''PART'']
   \<and> map penntreebank2universal
         [''SYM'', ''LS'', ''.'', ''!'', ''?'', '','', '':'', ''('', '')'', [CHR 0x22], ''#'', ''$'']
     = [Inr ''PUNCT'', Inr ''PUNCT'', Inr ''PUNCT'', Inr ''PUNCT'', Inr ''PUNCT'', Inr ''PUNCT'',
        Inr ''PUNCT'', Inr ''PUNCT'', Inr ''PUNCT'', Inr ''PUNCT'', Inr ''PUNCT'', Inr ''PUNCT'']"
proof (intro conjI)
qed (simp_all add: penntreebank2universal_def startswith_def tag_names)

section \<open>Compound proper-noun tags\<close>

lemma last_py_split_no_sep: "sep \<notin> set (last (py_split sep s))"
proof (induction s)
  case Nil
  show ?case by simp
next
  case (Cons c s)
  then show ?case
    by (cases "py_split sep s"; cases "tl (py_split sep s)")
       (auto simp: py_split_not_Nil split: if_splits)
qed

lemma last_py_split_is_whole:
  "last (py_split sep s) = s \<longleftrightarrow> sep \<notin> set s"
  using last_py_split_no_sep [of sep s] by (auto simp: py_split_no_sep)

lemma compound_NNP:
  "penntreebank2universal (''NNP-'' @ s) = Inr (''NOUN-'' @ last (py_split CHR ''-'' s))"
  using last_py_split_append [of "CHR ''-''" "''NNP''" s]
  by (simp add: compound_rule startswith_def)

lemma compound_NNPS:
  "penntreebank2universal (''NNPS-'' @ s) = Inr (''NOUN-'' @ last (py_split CHR ''-'' s))"
  using last_py_split_append [of "CHR ''-''" "''NNPS''" s]
  by (simp add: compound_rule startswith_def)

text \<open>
  Claim C2, as the specification states it, fails on a suffix that contains a hyphen:
  \<^verbatim>\<open>"NNP-A-B"\<close> is not mapped to \<^verbatim>\<open>"NOUN-A-B"\<close> (the result is \<^verbatim>\<open>"NOUN-B"\<close>).
\<close>

theorem hyphenated_suffix_not_preserved:
  "penntreebank2universal (''NNP-'' @ ''A-B'') \<noteq> Inr (''NOUN-'' @ ''A-B'')
   \<and> penntreebank2universal (''NNP-'' @ ''A-B'') = Inr ''NOUN-B''"
  by (simp add: penntreebank2universal_def startswith_def index_last_def tag_names)

text \<open>
  Claim C2, amended. For every suffix \<open>s\<close>, the mapper applied to \<^verbatim>\<open>"NNP-"\<close> + \<open>s\<close> or to
  \<^verbatim>\<open>"NNPS-"\<close> + \<open>s\<close> returns \<^verbatim>\<open>"NOUN-"\<close> followed by the part of \<open>s\<close> after its last
  hyphen; the result is \<^verbatim>\<open>"NOUN-"\<close> + \<open>s\<close>, the suffix kept verbatim, exactly when \<open>s\<close>
  contains no hyphen. The rule is decided by the prefix alone, before any table is
  consulted.
\<close>

theorem compound_suffix:
  "penntreebank2universal (''NNP-'' @ s) = Inr (''NOUN-'' @ last (py_split CHR ''-'' s))
   \<and> penntreebank2universal (''NNPS-'' @ s) = Inr (''NOUN-'' @ last (py_split CHR ''-'' s))
   \<and> (penntreebank2universal (''NNP-'' @ s) = Inr (''NOUN-'' @ s) \<longleftrightarrow> CHR ''-'' \<notin> set s)
   \<and> (penntreebank2universal (''NNPS-'' @ s) = Inr (''NOUN-'' @ s) \<longleftrightarrow> CHR ''-'' \<notin> set s)"
proof -
  have "penntreebank2universal (''NNP-'' @ s) = Inr (''NOUN-'' @ s) \<longleftrightarrow> CHR ''-'' \<notin> set s"
    using last_py_split_is_whole [of "CHR ''-''" s] by (simp only: compound_NNP sum.inject same_append_eq)
  moreover
  have "penntreebank2universal (''NNPS-'' @ s) = Inr (''NOUN-'' @ s) \<longleftrightarrow> CHR ''-'' \<notin> set s"
    using last_py_split_is_whole [of "CHR ''-''" s] by (simp only: compound_NNPS sum.inject same_append_eq)
  ultimately show ?thesis
    using compound_NNP [of s] compound_NNPS [of s] by blast
qed

theorem compound_suffix_witness:
  "CHR ''-'' \<notin> set ''LOC''
   \<and> penntreebank2universal ''NNP-LOC'' = Inr ''NOUN-LOC''
   \<and> penntreebank2universal ''NNPS-LOC'' = Inr ''NOUN-LOC''"
  using compound_suffix [of "''LOC''"] by simp

section \<open>Totality and the fallback\<close>

lemma penntreebank2universal_returns: "\<exists>r. penntreebank2universal tag = Inr r"
  unfolding penntreebank2universal_def index_last_py_split by simp

lemma fallback_X:
  assumes "\<not> startswith tag [''NNP-'', ''NNPS-'']" and "tag \<notin> set table_tags"
  shows "penntreebank2universal tag = Inr ''X''"
  using assms unfolding penntreebank2universal_def table_tags_def X_def by simp

text \<open>
  Claim C8. The mapper returns a string on every input, never an error; and on every
  input that is in no category table and does not start with \<^verbatim>\<open>"NNP-"\<close> or \<^verbatim>\<open>"NNPS-"\<close>
  the string it returns is the fallback \<^verbatim>\<open>"X"\<close>.
\<close>

theorem mapper_total_with_fallback:
  "(\<exists>r. penntreebank2universal tag = Inr r)
   \<and> (\<not> startswith tag [''NNP-'', ''NNPS-''] \<and> tag \<notin> set table_tags
        \<longrightarrow> penntreebank2universal tag = Inr ''X'')"
  using penntreebank2universal_returns [of tag] fallback_X [of tag] by blast

theorem mapper_total_with_fallback_witness:
  "\<not> startswith ''XYZ'' [''NNP-'', ''NNPS-''] \<and> ''XYZ'' \<notin> set table_tags
   \<and> penntreebank2universal ''XYZ'' = Inr ''X''"
  using mapper_total_with_fallback [of "''XYZ''"]
  by (simp add: startswith_def table_tags_def)

section \<open>The loader: gold spans, span counts and subsets\<close>

lemma label_tokens_eq:
  "label_tokens A ts es ps =
     (es @ [Span (token_i t) (token_i t + 1) (token_pos t). t \<leftarrow> ts, token_pos t \<in> set A],
      ps @ map (\<lambda>t. if token_pos t \<in> set A then token_pos t else ''X'') ts)"
  by (induction ts arbitrary: es ps) auto

lemma set_gold_labels_eq:
  "set_gold_labels A d =
     (d\<lparr>ents := [Span (token_i t) (token_i t + 1) (token_pos t). t \<leftarrow> tokens d, token_pos t \<in> set A]\<rparr>,
      map (\<lambda>t. if token_pos t \<in> set A then token_pos t else ''X'') (tokens d))"
  by (simp add: set_gold_labels_def label_tokens_eq set_ents_def)

lemma load_data_split_eq:
  "load_data_split data A sub =
     map (\<lambda>ex. (reference ex)\<lparr>ents := [Span (token_i t) (token_i t + 1) (token_pos t).
                                          t \<leftarrow> tokens (reference ex), token_pos t \<in> set A]\<rparr>)
         (records_used data sub)"
  by (simp add: load_data_split_def set_gold_labels_eq doc_copy_def)

lemma filter_index_unique:
  "distinct (map f xs) \<Longrightarrow> p < length xs \<Longrightarrow> filter (\<lambda>x. f x = f (xs ! p)) xs = [xs ! p]"
proof (induction xs arbitrary: p)
  case Nil
  then show ?case by simp
next
  case (Cons x xs)
  show ?case
  proof (cases p)
    case 0
    have nx: "f x \<notin> f ` set xs" using Cons.prems(1) by simp
    have "f y \<noteq> f x" if "y \<in> set xs" for y
    proof
      assume "f y = f x"
      then have "f x \<in> f ` set xs" using that by (metis imageI)
      then show False using nx by simp
    qed
    then have "filter (\<lambda>y. f y = f x) xs = []" by (simp add: filter_empty_conv)
    then show ?thesis using 0 by simp
  next
    case (Suc q)
    then have "q < length xs" using Cons.prems by simp
    then have "xs ! q \<in> set xs" by simp
    then have "f x \<noteq> f (xs ! q)" using Cons.prems by auto
    then show ?thesis using Cons Suc by auto
  qed
qed

lemma wf_token_at:
  assumes "wf_doc d" "p < length (tokens d)"
  shows "filter (\<lambda>t. token_i t = p) (tokens d) = [tokens d ! p]"
proof -
  have m: "map token_i (tokens d) = [0..<length (tokens d)]" using assms by (simp add: wf_doc_def)
  then have d: "distinct (map token_i (tokens d))" by simp
  have "token_i (tokens d ! p) = map token_i (tokens d) ! p" using assms by simp
  also have "\<dots> = p" using assms m by simp
  finally have "token_i (tokens d ! p) = p" .
  then show ?thesis using filter_index_unique [OF d assms(2)] by simp
qed

lemma comprehension_map_filter:
  "[g t. t \<leftarrow> ts, Q t] = map g (filter Q ts)"
  by (induction ts) auto

lemma spans_covering:
  assumes "wf_doc d" "p < length (tokens d)"
  shows "filter (\<lambda>s. span_start s \<le> p \<and> p < span_end s)
           [Span (token_i t) (token_i t + 1) (token_pos t). t \<leftarrow> tokens d, token_pos t \<in> set A]
         = (if token_pos (tokens d ! p) \<in> set A then [Span p (p + 1) (token_pos (tokens d ! p))] else [])"
proof -
  have tp: "token_i (tokens d ! p) = p"
    using wf_token_at [OF assms] by (metis (mono_tags, lifting) filter_eq_ConsD list.inject)
  have "filter (\<lambda>t. (token_i t \<le> p \<and> p < token_i t + 1) \<and> token_pos t \<in> set A) (tokens d)
        = filter (\<lambda>t. token_i t = p \<and> token_pos t \<in> set A) (tokens d)"
    by (rule filter_cong) auto
  also have "\<dots> = filter (\<lambda>t. token_pos t \<in> set A) (filter (\<lambda>t. token_i t = p) (tokens d))"
    by (simp add: conj_commute)
  also have "\<dots> = (if token_pos (tokens d ! p) \<in> set A then [tokens d ! p] else [])"
    by (simp add: wf_token_at [OF assms])
  finally show ?thesis
    by (simp add: comprehension_map_filter filter_map o_def tp conj_commute)
qed

lemma slice_to_prefix: "prefix (slice_to xs n) xs"
  by (simp add: slice_to_def take_is_prefix)

lemma take_prefix_take: "a \<le> b \<Longrightarrow> prefix (take a xs) (take b xs)"
  by (metis min.absorb1 take_is_prefix take_take)

lemma slice_to_mono:
  "m \<le> m' \<Longrightarrow> 0 \<le> m \<or> m' < 0 \<Longrightarrow> prefix (slice_to xs m) (slice_to xs m')"
  by (auto simp: slice_to_def intro!: take_prefix_take)

lemma slice_to_length: "0 \<le> m \<Longrightarrow> int (length (slice_to xs m)) \<le> m"
  by (simp add: slice_to_def)

lemma slice_to_map: "slice_to (map g xs) n = map g (slice_to xs n)"
  by (simp add: slice_to_def take_map)

lemma records_used_map: "records_used (map g data) sub = map g (records_used data sub)"
  by (cases sub) (simp_all add: records_used_def slice_to_map)

lemma card_allowed_le:
  "card (set A \<inter> f ` set ts) \<le> length (filter (\<lambda>t. f t \<in> set A) ts)"
proof -
  have "set A \<inter> f ` set ts = set (map f (filter (\<lambda>t. f t \<in> set A) ts))" by auto
  then show ?thesis by (metis card_length length_map)
qed

lemma card_allowed_eq:
  assumes "distinct (filter (\<lambda>p. p \<in> set A) (map f ts))"
  shows "card (set A \<inter> f ` set ts) = length (filter (\<lambda>t. f t \<in> set A) ts)"
proof -
  have e: "set A \<inter> f ` set ts = set (filter (\<lambda>p. p \<in> set A) (map f ts))" by auto
  have "card (set A \<inter> f ` set ts) = length (filter (\<lambda>p. p \<in> set A) (map f ts))"
    unfolding e using assms by (rule distinct_card)
  then show ?thesis by (simp add: filter_map o_def)
qed


lemmas sample_eval =
  load_data_split_def records_used_def slice_to_def set_gold_labels_def set_ents_def
  doc_copy_def sample_record_def sample_doc_def

text \<open>
  Claim C5. For the \<open>k\<close>-th record used, the \<open>k\<close>-th returned document has the tokens
  of the record's reference document, and its annotation set is exactly the list of
  single-token spans \<open>Span i (i + 1) tag\<close>, one for each token whose tag is in
  \<open>all_labels\<close>, in token order, labeled with the token's own tag. In a document whose
  tokens carry their positions, the spans covering a position are that one span when the
  tag of the token there is in the allow-list and none otherwise. The loop gives every
  token exactly one label, its own tag or \<^verbatim>\<open>"X"\<close>. The annotations the reference
  documents had before play no part in the result: whatever they were, the loader returns
  the same documents.
\<close>

theorem loader_gold_spans:
  assumes "k < length (records_used data subset_arg)"
  shows
    "let r = reference (records_used data subset_arg ! k);
         d = load_data_split data all_labels subset_arg ! k
     in length (load_data_split data all_labels subset_arg) = length (records_used data subset_arg)
      \<and> tokens d = tokens r
      \<and> ents d = [Span (token_i t) (token_i t + 1) (token_pos t).
                    t \<leftarrow> tokens r, token_pos t \<in> set all_labels]
      \<and> (wf_doc r \<longrightarrow>
           (\<forall>p < length (tokens r).
              filter (\<lambda>s. span_start s \<le> p \<and> p < span_end s) (ents d)
              = (if token_pos (tokens r ! p) \<in> set all_labels
                 then [Span p (p + 1) (token_pos (tokens r ! p))] else [])))
      \<and> snd (set_gold_labels all_labels (doc_copy r))
          = map (\<lambda>t. if token_pos t \<in> set all_labels then token_pos t else ''X'') (tokens r)
      \<and> load_data_split (map (\<lambda>ex. ex\<lparr>reference := (reference ex)\<lparr>ents := old ex\<rparr>\<rparr>) data)
           all_labels subset_arg
          = load_data_split data all_labels subset_arg"
proof -
  define r where "r = reference (records_used data subset_arg ! k)"
  define d where "d = load_data_split data all_labels subset_arg ! k"
  have len: "length (load_data_split data all_labels subset_arg) = length (records_used data subset_arg)"
    by (simp add: load_data_split_eq)
  have d_eq: "d = r\<lparr>ents := [Span (token_i t) (token_i t + 1) (token_pos t).
                               t \<leftarrow> tokens r, token_pos t \<in> set all_labels]\<rparr>"
    using assms by (simp add: d_def r_def load_data_split_eq)
  have toks: "tokens d = tokens r" by (simp add: d_eq)
  have es: "ents d = [Span (token_i t) (token_i t + 1) (token_pos t).
                        t \<leftarrow> tokens r, token_pos t \<in> set all_labels]"
    by (simp add: d_eq)
  have cover: "filter (\<lambda>s. span_start s \<le> p \<and> p < span_end s) (ents d)
              = (if token_pos (tokens r ! p) \<in> set all_labels
                 then [Span p (p + 1) (token_pos (tokens r ! p))] else [])"
    if "wf_doc r" "p < length (tokens r)" for p
    unfolding es using that by (rule spans_covering)
  have labels: "snd (set_gold_labels all_labels (doc_copy r))
          = map (\<lambda>t. if token_pos t \<in> set all_labels then token_pos t else ''X'') (tokens r)"
    by (simp add: set_gold_labels_eq doc_copy_def)
  have over: "load_data_split (map (\<lambda>ex. ex\<lparr>reference := (reference ex)\<lparr>ents := old ex\<rparr>\<rparr>) data)
           all_labels subset_arg
          = load_data_split data all_labels subset_arg"
    by (simp add: load_data_split_eq records_used_map o_def)
  show ?thesis
    unfolding Let_def r_def [symmetric] d_def [symmetric]
    using len toks es cover labels over by blast
qed

theorem loader_gold_spans_witness:
  "0 < length (records_used [sample_record] None)
   \<and> wf_doc (reference (records_used [sample_record] None ! 0))
   \<and> ents (reference (records_used [sample_record] None ! 0)) = [Span 0 3 ''OLD'']
   \<and> ents (load_data_split [sample_record] [''DET''] None ! 0) = [Span 0 1 ''DET'', Span 2 3 ''DET'']
   \<and> filter (\<lambda>s. span_start s \<le> 1 \<and> 1 < span_end s)
        (ents (load_data_split [sample_record] [''DET''] None ! 0)) = []
   \<and> snd (set_gold_labels [''DET''] (doc_copy sample_doc)) = [''DET'', ''X'', ''DET'']"
  using loader_gold_spans [of 0 "[sample_record]" None "[''DET'']"]
  by (simp add: sample_eval wf_doc_def)

text \<open>
  Claim C6, as the specification states it, fails when a tag of the allow-list occurs on
  two tokens: on the sample document the allow-list \<^verbatim>\<open>["DET"]\<close> holds one tag present
  among the tokens and the loader produces two spans.
\<close>

theorem span_count_not_distinct_tags:
  "card (set [''DET''] \<inter> token_pos ` set (tokens (reference sample_record))) = 1
   \<and> length (ents (load_data_split [sample_record] [''DET''] None ! 0)) = 2"
  by (simp add: sample_eval)

text \<open>
  Claim C6, amended. With \<open>K\<close> the number of distinct tags of the allow-list present among
  the tokens of a document, the loader produces exactly as many spans as there are tokens
  whose tag is in the allow-list: at least \<open>K\<close> and at most the number of tokens, exactly
  \<open>K\<close> when no allow-listed tag occurs on two tokens, and none when the allow-list
  matches no token, which is no error.
\<close>

theorem loader_span_count:
  assumes "k < length (records_used data subset_arg)"
  shows
    "let r = reference (records_used data subset_arg ! k);
         d = load_data_split data all_labels subset_arg ! k;
         K = card (set all_labels \<inter> token_pos ` set (tokens r))
     in length (ents d) = length (filter (\<lambda>t. token_pos t \<in> set all_labels) (tokens r))
      \<and> K \<le> length (ents d)
      \<and> length (ents d) \<le> length (tokens r)
      \<and> (distinct (filter (\<lambda>p. p \<in> set all_labels) (map token_pos (tokens r)))
           \<longrightarrow> length (ents d) = K)
      \<and> (K = 0 \<longrightarrow> ents d = [])"
proof -
  define r where "r = reference (records_used data subset_arg ! k)"
  define d where "d = load_data_split data all_labels subset_arg ! k"
  define K where "K = card (set all_labels \<inter> token_pos ` set (tokens r))"
  have es: "ents d = map (\<lambda>t. Span (token_i t) (token_i t + 1) (token_pos t))
                       (filter (\<lambda>t. token_pos t \<in> set all_labels) (tokens r))"
    using assms by (simp add: d_def r_def load_data_split_eq comprehension_map_filter)
  have n: "length (ents d) = length (filter (\<lambda>t. token_pos t \<in> set all_labels) (tokens r))"
    by (simp add: es)
  have le: "K \<le> length (ents d)"
    unfolding n K_def by (rule card_allowed_le)
  have le_n: "length (ents d) \<le> length (tokens r)"
    unfolding n by (rule length_filter_le)
  have eq: "length (ents d) = K"
    if "distinct (filter (\<lambda>p. p \<in> set all_labels) (map token_pos (tokens r)))"
    unfolding n K_def using that by (rule card_allowed_eq [symmetric])
  have none: "ents d = []" if "K = 0"
  proof -
    have "set all_labels \<inter> token_pos ` set (tokens r) = {}"
      using that by (simp add: K_def)
    then have "filter (\<lambda>t. token_pos t \<in> set all_labels) (tokens r) = []"
      by (auto simp: filter_empty_conv)
    then show ?thesis by (simp add: es)
  qed
  show ?thesis
    unfolding Let_def r_def [symmetric] d_def [symmetric] K_def [symmetric]
    using n le le_n eq none by blast
qed

theorem loader_span_count_witness:
  "0 < length (records_used [sample_record] None)
   \<and> distinct (filter (\<lambda>p. p \<in> set [''NOUN'']) (map token_pos (tokens (reference sample_record))))
   \<and> card (set [''NOUN''] \<inter> token_pos ` set (tokens (reference sample_record))) = 1
   \<and> length (ents (load_data_split [sample_record] [''NOUN''] None ! 0)) = 1
   \<and> card (set [''VERB''] \<inter> token_pos ` set (tokens (reference sample_record))) = 0
   \<and> ents (load_data_split [sample_record] [''VERB''] None ! 0) = []"
  using loader_span_count [of 0 "[sample_record]" None "[''NOUN'']"]
        loader_span_count [of 0 "[sample_record]" None "[''VERB'']"]
  by (simp add: sample_eval)

text \<open>
  Claim C7, as the specification states it, fails for a negative bound: on two records
  \<^verbatim>\<open>data[:-1]\<close> keeps one document, which is more than \<open>- 1\<close> and is not a prefix of
  the empty result for the larger bound \<open>0\<close>.
\<close>

theorem negative_subset_not_bounded:
  "\<not> int (length (load_data_split [sample_record, sample_record] [''DET''] (Some (- 1)))) \<le> - 1
   \<and> - 1 \<le> (0::int)
   \<and> \<not> prefix (load_data_split [sample_record, sample_record] [''DET''] (Some (- 1)))
               (load_data_split [sample_record, sample_record] [''DET''] (Some 0))"
  by (simp add: sample_eval)

text \<open>
  Claim C7, amended. For every integer \<open>m\<close> the result with \<^verbatim>\<open>subset = m\<close> is a prefix
  of the result with no subset; for \<open>m \<ge> 0\<close> it has at most \<open>m\<close> documents; and for
  \<open>m \<le> m'\<close> that are both non-negative or both negative, the result with bound \<open>m\<close> is
  a prefix of the result with bound \<open>m'\<close>.
\<close>

theorem subset_prefix:
  "prefix (load_data_split data all_labels (Some m)) (load_data_split data all_labels None)
   \<and> (0 \<le> m \<longrightarrow> int (length (load_data_split data all_labels (Some m))) \<le> m)
   \<and> (m \<le> m' \<and> (0 \<le> m \<or> m' < 0) \<longrightarrow>
        prefix (load_data_split data all_labels (Some m))
               (load_data_split data all_labels (Some m')))"
proof -
  have a: "prefix (load_data_split data all_labels (Some m)) (load_data_split data all_labels None)"
    unfolding load_data_split_eq by (rule map_mono_prefix) (simp add: records_used_def slice_to_prefix)
  have b: "int (length (load_data_split data all_labels (Some m))) \<le> m" if "0 \<le> m"
    using slice_to_length [OF that, of data] by (simp add: load_data_split_eq records_used_def)
  have c: "prefix (load_data_split data all_labels (Some m))
               (load_data_split data all_labels (Some m'))"
    if "m \<le> m'" "0 \<le> m \<or> m' < 0"
    unfolding load_data_split_eq using slice_to_mono [OF that, of data]
    by (intro map_mono_prefix) (simp add: records_used_def)
  show ?thesis using a b c by blast
qed

theorem subset_prefix_witness:
  "(0::int) \<le> 1 \<and> (1::int) \<le> 2
   \<and> length (load_data_split [sample_record, sample_record, sample_record] [''DET''] (Some 1)) = 1
   \<and> prefix (load_data_split [sample_record, sample_record, sample_record] [''DET''] (Some 1))
            (load_data_split [sample_record, sample_record, sample_record] [''DET''] (Some 2))
   \<and> prefix (load_data_split [sample_record, sample_record, sample_record] [''DET''] (Some 1))
            (load_data_split [sample_record, sample_record, sample_record] [''DET''] None)"
  using subset_prefix [of "[sample_record, sample_record, sample_record]" "[''DET'']" 1 2]
  by (simp add: sample_eval)

section \<open>The labeling pass: failures\<close>

lemma apply_lfs_append:
  "apply_lfs (xs @ ys) d h =
     (case apply_lfs xs d h of Inl err \<Rightarrow> Inl err | Inr (d', h') \<Rightarrow> apply_lfs ys d' h')"
  by (induction xs arbitrary: d h) (auto split: sum.splits)

lemma tag_loop_append:
  "tag_loop (xs @ ys) lfs h =
     (case tag_loop xs lfs h of Inl err \<Rightarrow> Inl err | Inr h' \<Rightarrow> tag_loop ys lfs h')"
  by (induction xs arbitrary: h) (auto split: sum.splits)

lemma apply_lfs_Inl:
  "apply_lfs lfs d h = Inl err \<Longrightarrow>
   \<exists>lpre l lpost d' h2. lfs = lpre @ l # lpost \<and> apply_lfs lpre d h = Inr (d', h2) \<and> l d' h2 = Inl err"
proof (induction lfs arbitrary: d h)
  case Nil
  then show ?case by simp
next
  case (Cons lf lfs)
  show ?case
  proof (cases "lf d h")
    case (Inl e)
    then have "err = e" using Cons.prems by simp
    then have "lf # lfs = [] @ lf # lfs \<and> apply_lfs [] d h = Inr (d, h) \<and> lf d h = Inl err"
      using Inl by simp
    then show ?thesis by blast
  next
    case (Inr r)
    obtain d1 h1 where r: "r = (d1, h1)" by (cases r)
    then have "apply_lfs lfs d1 h1 = Inl err" using Cons.prems Inr by simp
    then obtain lpre l lpost d' h2 where
      "lfs = lpre @ l # lpost" "apply_lfs lpre d1 h1 = Inr (d', h2)" "l d' h2 = Inl err"
      using Cons.IH by blast
    then have "lf # lfs = (lf # lpre) @ l # lpost \<and> apply_lfs (lf # lpre) d h = Inr (d', h2)
               \<and> l d' h2 = Inl err"
      using Inr r by simp
    then show ?thesis by blast
  qed
qed

lemma tag_loop_Inl:
  "tag_loop docs lfs h = Inl err \<Longrightarrow>
   \<exists>pre d post h1. docs = pre @ d # post \<and> tag_loop pre lfs h = Inr h1 \<and> apply_lfs lfs d h1 = Inl err"
proof (induction docs arbitrary: h)
  case Nil
  then show ?case by simp
next
  case (Cons x docs)
  show ?case
  proof (cases "apply_lfs lfs x h")
    case (Inl e)
    then have "x # docs = [] @ x # docs \<and> tag_loop [] lfs h = Inr h \<and> apply_lfs lfs x h = Inl err"
      using Cons.prems by simp
    then show ?thesis by blast
  next
    case (Inr r)
    obtain d1 h1 where r: "r = (d1, h1)" by (cases r)
    then have "tag_loop docs lfs h1 = Inl err" using Cons.prems Inr by simp
    then obtain pre d post h2 where
      "docs = pre @ d # post" "tag_loop pre lfs h1 = Inr h2" "apply_lfs lfs d h2 = Inl err"
      using Cons.IH by blast
    then have "x # docs = (x # pre) @ d # post \<and> tag_loop (x # pre) lfs h = Inr h2
               \<and> apply_lfs lfs d h2 = Inl err"
      using Inr r by simp
    then show ?thesis by blast
  qed
qed

lemma failure_forward:
  assumes "tag_loop pre (lpre @ l # lpost) h = Inr h1"
      and "apply_lfs lpre d h1 = Inr (d', h2)"
      and "l d' h2 = Inl err"
  shows "tag_all (pre @ d # post) (lpre @ l # lpost) h = Inl err"
  using assms by (simp add: tag_all_def tag_loop_append apply_lfs_append)

lemma failure_backward:
  assumes "tag_all docs lfs h = Inl err"
  shows "\<exists>pre d post lpre l lpost h1 d' h2.
           docs = pre @ d # post \<and> lfs = lpre @ l # lpost
           \<and> tag_loop pre lfs h = Inr h1
           \<and> apply_lfs lpre d h1 = Inr (d', h2)
           \<and> l d' h2 = Inl err"
proof -
  have "tag_loop docs lfs h = Inl err"
    using assms by (simp add: tag_all_def split: sum.splits)
  then obtain pre d post h1 where
    1: "docs = pre @ d # post" "tag_loop pre lfs h = Inr h1" "apply_lfs lfs d h1 = Inl err"
    using tag_loop_Inl by blast
  then obtain lpre l lpost d' h2 where
    2: "lfs = lpre @ l # lpost" "apply_lfs lpre d h1 = Inr (d', h2)" "l d' h2 = Inl err"
    using apply_lfs_Inl by blast
  show ?thesis using 1 2 by blast
qed

lemmas lf_eval =
  tag_all_def lf_fresh_def lf_in_place_def lf_raise_on_def add_one_def double_def deref_def

text \<open>
  Claim C9. When all the labeling functions have been applied to the documents \<open>pre\<close>,
  the functions \<open>lpre\<close> have been applied to the next document \<open>d\<close>, and the next
  function \<open>l\<close> raises \<open>e\<close> there, leaving the store \<open>hf\<close>, then \<open>tag_all\<close> raises
  that same error \<open>e\<close> with that same store \<open>hf\<close>, whatever the remaining functions
  \<open>lpost\<close> and the remaining documents \<open>post\<close> are: none of them is run, and nothing is
  returned. Conversely, every failure of \<open>tag_all\<close> is of this form: it is the error of
  one labeling function on one document, with every earlier document fully processed.
\<close>

theorem failure_propagates:
  "(tag_loop pre (lpre @ l # lpost) h = Inr h1
      \<and> apply_lfs lpre d h1 = Inr (d', h2)
      \<and> l d' h2 = Inl (e, hf)
    \<longrightarrow> tag_all (pre @ d # post) (lpre @ l # lpost) h = Inl (e, hf))
   \<and> (tag_all docs lfs h = Inl (e, hf)
    \<longrightarrow> (\<exists>pre d post lpre l lpost h1 d' h2.
           docs = pre @ d # post \<and> lfs = lpre @ l # lpost
           \<and> tag_loop pre lfs h = Inr h1
           \<and> apply_lfs lpre d h1 = Inr (d', h2)
           \<and> l d' h2 = Inl (e, hf)))"
  using failure_forward [of pre lpre l lpost h h1 d d' h2 "(e, hf)" post]
        failure_backward [of docs lfs h "(e, hf)"]
  by blast

theorem failure_propagates_witness:
  "tag_loop [0] ([lf_in_place add_one] @ lf_raise_on 1 ''boom'' # [lf_in_place double]) [10, 20, 30]
     = Inr [22, 20, 30]
   \<and> apply_lfs [lf_in_place add_one] 1 [22, 20, 30] = Inr (1, [22, 21, 30])
   \<and> lf_raise_on 1 ''boom'' 1 [22, 21, 30] = Inl (LabelingFailure ''boom'', [22, 21, 30])
   \<and> tag_all [0, 1, 2] [lf_in_place add_one, lf_raise_on 1 ''boom'', lf_in_place double] [10, 20, 30]
     = Inl (LabelingFailure ''boom'', [22, 21, 30])"
  using failure_propagates
          [of "[0]" "[lf_in_place add_one]" "lf_raise_on 1 ''boom''" "[lf_in_place double]"
              "[10, 20, 30]" "[22, 20, 30]" 1 1 "[22, 21, 30]" "LabelingFailure ''boom''"
              "[22, 21, 30]" "[2]"
              "[0, 1, 2]" "[lf_in_place add_one, lf_raise_on 1 ''boom'', lf_in_place double]"]
  by (simp add: lf_eval)

section \<open>The labeling pass: what is returned\<close>

lemma take_length_trans:
  assumes "take (length a) b = a" and "take (length b) c = b"
  shows "take (length a) c = a"
proof -
  have "length (take (length a) b) = length a"
    using assms(1) by simp
  then have "length a \<le> length b"
    by simp
  then have "take (length a) c = take (length a) (take (length b) c)"
    by (simp add: min.absorb1)
  then show ?thesis using assms by simp
qed

lemma apply_lfs_leaves:
  "\<forall>lf\<in>set lfs. leaves_objects lf \<Longrightarrow> apply_lfs lfs d h = Inr (d', h') \<Longrightarrow> take (length h) h' = h"
proof (induction lfs arbitrary: d h)
  case Nil
  then show ?case by simp
next
  case (Cons lf lfs)
  from Cons.prems(2) obtain d1 h1 where
    s: "lf d h = Inr (d1, h1)" and rest: "apply_lfs lfs d1 h1 = Inr (d', h')"
    by (auto split: sum.splits)
  have "take (length h) h1 = h"
    using Cons.prems(1) s by (auto simp: leaves_objects_def)
  moreover have "take (length h1) h' = h1"
    using Cons.IH [OF _ rest] Cons.prems(1) by simp
  ultimately show ?case by (rule take_length_trans)
qed

lemma tag_loop_leaves:
  "\<forall>lf\<in>set lfs. leaves_objects lf \<Longrightarrow> tag_loop docs lfs h = Inr h' \<Longrightarrow> take (length h) h' = h"
proof (induction docs arbitrary: h)
  case Nil
  then show ?case by simp
next
  case (Cons d docs)
  from Cons.prems(2) obtain d1 h1 where
    s: "apply_lfs lfs d h = Inr (d1, h1)" and rest: "tag_loop docs lfs h1 = Inr h'"
    by (auto split: sum.splits)
  have "take (length h) h1 = h"
    using Cons.prems(1) s by (rule apply_lfs_leaves)
  moreover have "take (length h1) h' = h1"
    using Cons.prems(1) rest by (rule Cons.IH)
  ultimately show ?case by (rule take_length_trans)
qed

lemma deref_take:
  assumes "take (length h) h' = h" and "\<forall>d\<in>set docs. d < length h"
  shows "deref h' docs = deref h docs"
proof -
  have "h' ! d = h ! d" if "d \<in> set docs" for d
  proof -
    have "d < length h" using that assms(2) by simp
    then have "take (length h) h' ! d = h' ! d" by simp
    then show ?thesis using assms(1) by simp
  qed
  then show ?thesis by (simp add: deref_def)
qed

lemma tag_all_cases:
  "(\<exists>h'. tag_all docs lfs h = Inr (docs, h')) \<or> (\<exists>err. tag_all docs lfs h = Inl err)"
  by (cases "tag_loop docs lfs h") (simp_all add: tag_all_def)

lemma tag_all_Inr:
  "tag_all docs lfs h = Inr (r, h') \<longleftrightarrow> r = docs \<and> tag_loop docs lfs h = Inr h'"
  by (auto simp: tag_all_def split: sum.splits)

lemma tag_all_Cons_first:
  assumes "f d h = Inr (d1, h1)"
  shows "tag_all (d # ds) (f # rest) h =
           (case apply_lfs rest d1 h1 of
              Inl err \<Rightarrow> Inl err
            | Inr (d2, h2) \<Rightarrow>
                (case tag_all ds (f # rest) h2 of
                   Inl err \<Rightarrow> Inl err
                 | Inr (rs, h3) \<Rightarrow> Inr (d # ds, h3)))"
  using assms by (simp add: tag_all_def split: sum.splits prod.splits)

lemma leaves_objects_lf_fresh: "leaves_objects (lf_fresh f)"
  by (auto simp: leaves_objects_def lf_fresh_def split: if_splits)

text \<open>
  Claim C4, as stated, fails: the value a labeling function returns is not discarded
  at once, it is the argument of the next labeling function of the list, so a function
  that returns a new document without changing its argument does have an effect on the
  result. In front of \<open>lf_in_place double\<close>, the function \<open>lf_fresh add_one\<close>, which
  changes no object, makes the doubling act on the new documents: the documents given
  stay at 10 and 20, while without it they become 20 and 40.
\<close>

theorem fresh_function_shields_documents:
  "leaves_objects (lf_fresh add_one :: (int, lf_error) lf)
   \<and> tag_all [0, 1] [lf_fresh add_one, lf_in_place double] [10, 20]
     = Inr ([0, 1], [10, 20, 22, 42])
   \<and> tag_all [0, 1] [lf_in_place double] [10, 20] = Inr ([0, 1], [20, 40])
   \<and> deref [10, 20, 22, 42] [0, 1] = [10, 20]
   \<and> deref [20, 40] [0, 1] = [20, 40]"
  by (simp add: lf_eval leaves_objects_lf_fresh)

text \<open>
  Claim C4, amended. \<open>tag_all\<close> either raises or returns the very sequence of documents
  it was given: when it returns, the sequence returned is \<open>docs\<close>, whatever the labeling
  functions returned. The value returned by a labeling function call is bound to the
  local variable only: it is the argument of the remaining functions of the list on that
  document, and what the last of them returns is dropped before the next document. When
  every labeling function of the list leaves the objects of the store as they are and
  only builds new ones, the store that \<open>tag_all\<close> leaves still holds every object it
  held before, unchanged, so the documents seen through the returned sequence are the
  documents as they were.
\<close>

theorem tag_all_returns_given_sequence:
  "((\<exists>h2. tag_all docs lfs h = Inr (docs, h2)) \<or> (\<exists>err. tag_all docs lfs h = Inl err))
   \<and> (tag_all docs lfs h = Inr (r, h') \<longrightarrow> r = docs)
   \<and> (f d h0 = Inr (d1, h1) \<longrightarrow>
        tag_all (d # ds) (f # rest) h0 =
          (case apply_lfs rest d1 h1 of
             Inl err \<Rightarrow> Inl err
           | Inr (d2, h2) \<Rightarrow>
               (case tag_all ds (f # rest) h2 of
                  Inl err \<Rightarrow> Inl err
                | Inr (rs, h3) \<Rightarrow> Inr (d # ds, h3))))
   \<and> (tag_all docs lfs h = Inr (r, h') \<and> (\<forall>lf\<in>set lfs. leaves_objects lf)
        \<longrightarrow> take (length h) h' = h)
   \<and> (tag_all docs lfs h = Inr (r, h') \<and> (\<forall>lf\<in>set lfs. leaves_objects lf)
       \<and> (\<forall>d\<in>set docs. d < length h)
        \<longrightarrow> deref h' r = deref h docs)"
proof -
  have a: "take (length h) h' = h"
    if "tag_all docs lfs h = Inr (r, h')" "\<forall>lf\<in>set lfs. leaves_objects lf"
    using that tag_loop_leaves [of lfs docs h h'] by (simp add: tag_all_Inr)
  have b: "deref h' r = deref h docs"
    if "tag_all docs lfs h = Inr (r, h')" "\<forall>lf\<in>set lfs. leaves_objects lf"
       "\<forall>d\<in>set docs. d < length h"
    using a [OF that(1,2)] that deref_take [of h h' docs] by (simp add: tag_all_Inr)
  have c: "tag_all (d # ds) (f # rest) h0 =
          (case apply_lfs rest d1 h1 of
             Inl err \<Rightarrow> Inl err
           | Inr (d2, h2) \<Rightarrow>
               (case tag_all ds (f # rest) h2 of
                  Inl err \<Rightarrow> Inl err
                | Inr (rs, h3) \<Rightarrow> Inr (d # ds, h3)))"
    if "f d h0 = Inr (d1, h1)"
    using that by (rule tag_all_Cons_first)
  have d: "(\<exists>h2. tag_all docs lfs h = Inr (docs, h2)) \<or> (\<exists>err. tag_all docs lfs h = Inl err)"
    by (rule tag_all_cases)
  have e: "tag_all docs lfs h = Inr (r, h') \<longrightarrow> r = docs"
    by (simp add: tag_all_Inr)
  show ?thesis using a b c d e by blast
qed

theorem tag_all_returns_given_sequence_witness:
  "tag_all [0, 1] [lf_fresh add_one, lf_fresh double] [10, 20] = Inr ([0, 1], [10, 20, 11, 22, 21, 42])
   \<and> leaves_objects (lf_fresh add_one :: (int, lf_error) lf)
   \<and> leaves_objects (lf_fresh double :: (int, lf_error) lf)
   \<and> 0 < length [10, 20 :: int] \<and> 1 < length [10, 20 :: int]
   \<and> deref [10, 20, 11, 22, 21, 42] [0, 1] = deref [10, 20 :: int] [0, 1]
   \<and> deref [10, 20 :: int] [0, 1] = [10, 20]
   \<and> lf_fresh add_one 0 [10, 20] = Inr (2, [10, 20, 11])
   \<and> apply_lfs [lf_fresh double] 2 [10, 20, 11] = Inr (3, [10, 20, 11, 22])
   \<and> tag_all [1] [lf_fresh add_one, lf_fresh double] [10, 20, 11, 22]
       = Inr ([1], [10, 20, 11, 22, 21, 42])"
  using tag_all_returns_given_sequence
          [where docs = "[0, 1]" and lfs = "[lf_fresh add_one, lf_fresh double]"
             and h = "[10, 20]" and r = "[0, 1]" and h' = "[10, 20, 11, 22, 21, 42]"
             and f = "lf_fresh add_one" and d = 0 and ?h0.0 = "[10, 20]" and ?d1.0 = 2
             and ?h1.0 = "[10, 20, 11]" and ds = "[1]" and rest = "[lf_fresh double]"]
  by (simp add: lf_eval leaves_objects_lf_fresh)

section \<open>The labeling pass: two functions\<close>

lemma tag_all_Cons_two:
  "tag_all (d # ds) [f, g] h =
     (case f d h of
        Inl err \<Rightarrow> Inl err
      | Inr (d1, h1) \<Rightarrow>
          (case g d1 h1 of
             Inl err \<Rightarrow> Inl err
           | Inr (d2, h2) \<Rightarrow>
               (case tag_all ds [f, g] h2 of
                  Inl err \<Rightarrow> Inl err
                | Inr (rs, h3) \<Rightarrow> Inr (d # rs, h3))))"
  by (simp add: tag_all_def split: sum.splits prod.splits)

lemma tag_all_two_is_map:
  assumes "returns_argument f" and "returns_argument g"
  shows "tag_all docs [f, g] h = map_g_after_f f g docs h"
proof (induction docs arbitrary: h)
  case Nil
  show ?case by (simp add: tag_all_def)
next
  case (Cons d ds)
  have f: "d1 = d" if "f d h = Inr (d1, h1)" for d1 h1
    using assms(1) that unfolding returns_argument_def by blast
  have g: "d2 = d1" if "g d1 h1 = Inr (d2, h2)" for d1 h1 d2 h2
    using assms(2) that unfolding returns_argument_def by blast
  show ?case
    unfolding tag_all_Cons_two map_g_after_f.simps Cons.IH
    by (auto split: sum.splits dest!: f g)
qed

lemma fold_in_place_length:
  "length (fold (\<lambda>d h. h[d := k (h ! d)]) docs h) = length h"
  by (induction docs arbitrary: h) auto

lemma fold_in_place_other:
  "a \<notin> set docs \<Longrightarrow> fold (\<lambda>d h. h[d := k (h ! d)]) docs h ! a = h ! a"
  by (induction docs arbitrary: h) auto

lemma tag_loop_in_place:
  "\<forall>d\<in>set docs. d < length h \<Longrightarrow>
   tag_loop docs [lf_in_place f, lf_in_place g] h
     = Inr (fold (\<lambda>d h. h[d := g (f (h ! d))]) docs h)"
  by (induction docs arbitrary: h) (auto simp: lf_in_place_def)

lemma deref_fold_in_place:
  "distinct docs \<Longrightarrow> \<forall>d\<in>set docs. d < length h \<Longrightarrow>
   deref (fold (\<lambda>d h. h[d := k (h ! d)]) docs h) docs = map k (deref h docs)"
proof (induction docs arbitrary: h)
  case Nil
  show ?case by (simp add: deref_def)
next
  case (Cons d ds)
  let ?h1 = "h[d := k (h ! d)]"
  have 1: "fold (\<lambda>d h. h[d := k (h ! d)]) ds ?h1 ! d = k (h ! d)"
    using Cons.prems by (simp add: fold_in_place_other)
  have 2: "deref (fold (\<lambda>d h. h[d := k (h ! d)]) ds ?h1) ds = map k (deref ?h1 ds)"
    using Cons.prems by (intro Cons.IH) auto
  have "?h1 ! x = h ! x" if "x \<in> set ds" for x
  proof -
    have "d \<noteq> x" using that Cons.prems(1) by auto
    then show ?thesis by (rule nth_list_update_neq)
  qed
  then have 3: "deref ?h1 ds = deref h ds"
    by (simp add: deref_def)
  show ?case using 1 2 3 by (simp add: deref_def)
qed

text \<open>
  Claim C3, amended. \<open>tag_all\<close> with no labeling function returns the documents and the
  store unchanged. For labeling functions \<open>f\<close> and \<open>g\<close> that each return the document
  they were given, \<open>tag_all\<close> with \<open>[f, g]\<close> is the map of \<open>g\<close> after \<open>f\<close> over the
  documents: same result, same store, same failure. In particular, for functions \<open>u\<close>
  and \<open>v\<close> on document values applied in place to distinct documents, the documents
  returned are the values \<open>v (u x)\<close> of the documents \<open>x\<close> given.
\<close>

theorem tag_all_two_functions:
  "tag_all docs [] h = Inr (docs, h)
   \<and> (returns_argument f \<and> returns_argument g
        \<longrightarrow> tag_all docs [f, g] h = map_g_after_f f g docs h)
   \<and> (distinct docs \<and> (\<forall>d\<in>set docs. d < length h)
        \<longrightarrow> (\<exists>h'. tag_all docs [lf_in_place u, lf_in_place v] h = Inr (docs, h')
                  \<and> deref h' docs = map (v \<circ> u) (deref h docs)))"
proof -
  have a: "tag_all docs [] h = Inr (docs, h)"
    by (induction docs) (simp_all add: tag_all_def split: sum.splits)
  have c: "\<exists>h'. tag_all docs [lf_in_place u, lf_in_place v] h = Inr (docs, h')
                  \<and> deref h' docs = map (v \<circ> u) (deref h docs)"
    if "distinct docs" "\<forall>d\<in>set docs. d < length h"
    using that deref_fold_in_place [of docs h "v \<circ> u"]
    by (simp add: tag_all_def tag_loop_in_place)
  show ?thesis using a c tag_all_two_is_map [of f g docs h] by blast
qed

lemma returns_argument_lf_in_place: "returns_argument (lf_in_place f)"
  by (auto simp: returns_argument_def lf_in_place_def split: if_splits)

theorem tag_all_two_functions_witness:
  "returns_argument (lf_in_place add_one) \<and> returns_argument (lf_in_place double)
   \<and> distinct [0, 1 :: nat] \<and> 0 < length [10, 20 :: int] \<and> 1 < length [10, 20 :: int]
   \<and> tag_all [0, 1] [lf_in_place add_one, lf_in_place double] [10, 20] = Inr ([0, 1], [22, 42])
   \<and> map_g_after_f (lf_in_place add_one) (lf_in_place double) [0, 1] [10, 20] = Inr ([0, 1], [22, 42])
   \<and> map (double \<circ> add_one) (deref [10, 20] [0, 1]) = [22, 42]
   \<and> map (add_one \<circ> double) (deref [10, 20] [0, 1]) = [21, 41]"
  using tag_all_two_functions
          [of "[0, 1]" "[10, 20]" "lf_in_place add_one" "lf_in_place double" add_one double]
  by (simp add: lf_eval returns_argument_lf_in_place)

text \<open>
  Claim C3, as the specification states it, fails for labeling functions that return a
  new document: \<open>tag_all\<close> returns the two documents it was given, whose values are
  still 10 and 20, while mapping \<open>double\<close> after \<open>add_one\<close> over them gives two other
  documents, of values 22 and 42.
\<close>

theorem fresh_results_are_dropped:
  "tag_all [0, 1] [lf_fresh add_one, lf_fresh double] [10, 20]
     = Inr ([0, 1], [10, 20, 11, 22, 21, 42])
   \<and> map_g_after_f (lf_fresh add_one) (lf_fresh double) [0, 1] [10, 20]
     = Inr ([3, 5], [10, 20, 11, 22, 21, 42])
   \<and> deref [10, 20, 11, 22, 21, 42] [0, 1] = [10, 20]
   \<and> deref [10, 20, 11, 22, 21, 42] [3, 5] = [22, 42]
   \<and> tag_all [0, 1] [lf_fresh add_one, lf_fresh double] [10, 20]
     \<noteq> map_g_after_f (lf_fresh add_one) (lf_fresh double) [0, 1] [10, 20]"
  by (simp add: lf_eval)

end
